theory Spec2Isabelle
  imports Complex_Main "HOL-Library.Sublist"
begin

section \<open>The colormap notebook: swatch and grid renderers\<close>

text \<open>
  The code verified here is the second code cell of
  \<^verbatim>\<open>examples/user_guide/index.ipynb\<close>:
  \<^verbatim>\<open>
  xs, ys = np.meshgrid(np.linspace(0, 1, 80), np.linspace(0, 1, 10))

  def colormap(name, cmap=None, array=xs):
      if cmap is None:
          cmap = cc.cm[name]
      options = hv.opts.Image(xaxis=None, yaxis=None, aspect=3, fig_size=200, cmap=cmap)
      return hv.Image(array, group=name).opts(options)

  def colormaps(named_cms, array=xs, cols=3, skip_r=True, size=100):
      if skip_r:
          named_cms = list(filter(lambda x: not x[0].endswith('_r'), named_cms))
      options = hv.opts.Layout(sublabel_format=None, fig_size=size)
      return hv.Layout([colormap(name, cm, array) for name, cm in named_cms]).opts(options).cols(cols)
  \<close>
  Python objects that can be mutated (the sequences of pairs, the numeric arrays) live in
  a store and are passed by reference; the registry \<^verbatim>\<open>cc.cm\<close> is a global that the
  code reads; the plotting library keeps the options of the objects it displays in a store
  of its own. Every call is a function from the world before the call to a result (or an
  exception) and the world after it.
\<close>

subsection \<open>Data model\<close>

type_synonym ref = nat

text \<open>
  A 2D numeric array is a list of rows. A finite floating-point number is a rational, and
  an entry is the rational that the floating-point number is. The arithmetic of numpy is
  not modelled: the contents of an array are given, never computed.
\<close>

type_synonym ndarray = "rat list list"

text \<open>
  A named entry is a pair of a name and a colormap; the colormap may be \<^verbatim>\<open>None\<close>.
  Colormap objects are opaque values of type \<open>'cm\<close>. Names are strings of bytes; the test
  for the ASCII suffix \<^verbatim>\<open>_r\<close> gives the same answer on the UTF-8 bytes of a name as on
  its code points.
\<close>

type_synonym 'cm named_cm = "string \<times> 'cm option"

text \<open>
  The exceptions: the \<^verbatim>\<open>KeyError\<close> of a dictionary lookup, with the missing key, and an
  exception raised inside the plotting library, with its description.
\<close>

datatype error = KeyError string | HvError string

subsection \<open>The plotting library's objects\<close>

text \<open>
  \<^verbatim>\<open>hv.opts.Image\<close> and \<^verbatim>\<open>hv.opts.Layout\<close> collect keyword arguments. An image wraps a
  reference to its array and a layout wraps its items; each carries the identifier under
  which the library's store holds its options, or \<open>None\<close> before any are applied.
\<close>

record 'cm image_options =
  xaxis :: "string option"
  yaxis :: "string option"
  aspect :: int
  image_fig_size :: int
  cmap_of :: 'cm

record layout_options =
  sublabel_format :: "string option"
  layout_fig_size :: int

datatype 'cm options = ImageOptions "'cm image_options" | LayoutOptions layout_options

record image =
  image_data :: ref
  image_group :: string
  image_id :: "nat option"

record layout =
  layout_items :: "image list"
  max_cols :: "int option"
  layout_id :: "nat option"

subsection \<open>The world\<close>

record 'cm world =
  cc_cm :: "string \<rightharpoonup> 'cm"
  arrays :: "ref \<Rightarrow> ndarray"
  next_array :: ref
  lists :: "ref \<Rightarrow> 'cm named_cm list"
  next_list :: ref
  default_array :: ref
  store :: "nat \<rightharpoonup> 'cm options"
  next_id :: nat

text \<open>
  \<open>cc_cm\<close> is the registry \<^verbatim>\<open>cc.cm\<close>; \<open>arrays\<close> and \<open>lists\<close> are the stores of
  array objects and of sequences of named entries, with the next free reference of each;
  \<open>default_array\<close> is the object \<^verbatim>\<open>xs\<close> that was bound to the parameter default
  \<^verbatim>\<open>array=xs\<close> when the two \<^verbatim>\<open>def\<close> statements ran; \<open>store\<close> is the option store of
  the plotting library, from identifiers to options, and \<open>next_id\<close> the next identifier
  it hands out.
\<close>

type_synonym ('a, 'cm) py = "'cm world \<Rightarrow> (error + 'a) \<times> 'cm world"

definition new_list :: "'cm named_cm list \<Rightarrow> 'cm world \<Rightarrow> ref \<times> 'cm world" where
  "new_list l w =
     (next_list w, w\<lparr>lists := (lists w)(next_list w := l), next_list := Suc (next_list w)\<rparr>)"

subsection \<open>The calls into the plotting library\<close>

text \<open>
  \<^verbatim>\<open>hv.Image(array, group=name)\<close> validates the array and the group name and raises when
  it refuses them. The validation is the library's and is a parameter of the model:
  \<open>chk a g\<close> is \<open>None\<close> when the library accepts the array \<open>a\<close> with the group \<open>g\<close>, and
  the description of the exception that it raises otherwise.
\<close>

type_synonym hv_check = "ndarray \<Rightarrow> string \<Rightarrow> string option"

definition hv_opts_Image :: "string option \<Rightarrow> string option \<Rightarrow> int \<Rightarrow> int \<Rightarrow> 'cm \<Rightarrow> 'cm image_options" where
  "hv_opts_Image xa ya asp fs cm =
     \<lparr>xaxis = xa, yaxis = ya, aspect = asp, image_fig_size = fs, cmap_of = cm\<rparr>"

definition hv_Image :: "hv_check \<Rightarrow> ref \<Rightarrow> string \<Rightarrow> (image, 'cm) py" where
  "hv_Image chk array grp w =
     (case chk (arrays w array) grp of
        Some msg \<Rightarrow> (Inl (HvError msg), w)
      | None \<Rightarrow> (Inr \<lparr>image_data = array, image_group = grp, image_id = None\<rparr>, w))"

text \<open>
  \<^verbatim>\<open>.opts(options)\<close> registers the options in the library's store under a new identifier
  and stamps the object with that identifier.
\<close>

definition opts_image :: "image \<Rightarrow> 'cm image_options \<Rightarrow> 'cm world \<Rightarrow> image \<times> 'cm world" where
  "opts_image img options w =
     (img\<lparr>image_id := Some (next_id w)\<rparr>,
      w\<lparr>store := (store w)(next_id w \<mapsto> ImageOptions options), next_id := Suc (next_id w)\<rparr>)"

definition hv_opts_Layout :: "string option \<Rightarrow> int \<Rightarrow> layout_options" where
  "hv_opts_Layout sf fs = \<lparr>sublabel_format = sf, layout_fig_size = fs\<rparr>"

definition hv_Layout :: "image list \<Rightarrow> layout" where
  "hv_Layout imgs = \<lparr>layout_items = imgs, max_cols = None, layout_id = None\<rparr>"

definition opts_layout :: "layout \<Rightarrow> layout_options \<Rightarrow> 'cm world \<Rightarrow> layout \<times> 'cm world" where
  "opts_layout lay options w =
     (lay\<lparr>layout_id := Some (next_id w)\<rparr>,
      w\<lparr>store := (store w)(next_id w \<mapsto> LayoutOptions options), next_id := Suc (next_id w)\<rparr>)"

definition cols_layout :: "layout \<Rightarrow> int \<Rightarrow> layout" where
  "cols_layout lay n = lay\<lparr>max_cols := Some n\<rparr>"

subsection \<open>The two functions of the cell\<close>

text \<open>\<^verbatim>\<open>cc.cm[name]\<close>: a dictionary lookup, which raises \<^verbatim>\<open>KeyError(name)\<close> on a missing key.\<close>

definition cc_cm_getitem :: "string \<Rightarrow> ('cm, 'cm) py" where
  "cc_cm_getitem name w =
     (case cc_cm w name of None \<Rightarrow> (Inl (KeyError name), w) | Some c \<Rightarrow> (Inr c, w))"

text \<open>
  \<^verbatim>\<open>colormap(name, cmap=None, array=xs)\<close>. The argument \<open>array\<close> is \<open>None\<close> when the
  caller omits it. The first argument is the validation of the plotting library.
\<close>

definition colormap :: "hv_check \<Rightarrow> string \<Rightarrow> 'cm option \<Rightarrow> ref option \<Rightarrow> (image, 'cm) py" where
  "colormap chk name cmap array w =
     (let array' = (case array of None \<Rightarrow> default_array w | Some a \<Rightarrow> a) in
      case (case cmap of None \<Rightarrow> cc_cm_getitem name w | Some c \<Rightarrow> (Inr c, w)) of
        (Inl e, w1) \<Rightarrow> (Inl e, w1)
      | (Inr cmap', w1) \<Rightarrow>
          (let options = hv_opts_Image None None 3 200 cmap' in
           case hv_Image chk array' name w1 of
             (Inl e, w2) \<Rightarrow> (Inl e, w2)
           | (Inr img, w2) \<Rightarrow> (let (img', w3) = opts_image img options w2 in (Inr img', w3))))"

text \<open>\<^verbatim>\<open>s.endswith(suffix)\<close>: the last \<open>length suffix\<close> characters of \<open>s\<close> are \<open>suffix\<close>.\<close>

definition endswith :: "string \<Rightarrow> string \<Rightarrow> bool" where
  "endswith s suff \<longleftrightarrow> length suff \<le> length s \<and> drop (length s - length suff) s = suff"

text \<open>The filter of \<open>colormaps\<close>: \<^verbatim>\<open>filter(lambda x: not x[0].endswith('_r'), named_cms)\<close>.\<close>

definition skip_r_filter :: "'cm named_cm list \<Rightarrow> 'cm named_cm list" where
  "skip_r_filter named_cms = filter (\<lambda>x. \<not> endswith (fst x) ''_r'') named_cms"

text \<open>
  The list comprehension \<^verbatim>\<open>[colormap(name, cm, array) for name, cm in named_cms]\<close>: the
  calls run in order, each in the world that the one before left, and the first exception
  ends the comprehension.
\<close>

fun comprehension :: "hv_check \<Rightarrow> 'cm named_cm list \<Rightarrow> ref \<Rightarrow> (image list, 'cm) py" where
  "comprehension chk [] array w = (Inr [], w)"
| "comprehension chk ((name, cm) # rest) array w =
     (case colormap chk name cm (Some array) w of
        (Inl e, w1) \<Rightarrow> (Inl e, w1)
      | (Inr img, w1) \<Rightarrow>
          (case comprehension chk rest array w1 of
             (Inl e, w2) \<Rightarrow> (Inl e, w2)
           | (Inr imgs, w2) \<Rightarrow> (Inr (img # imgs), w2)))"

text \<open>
  \<^verbatim>\<open>colormaps(named_cms, array=xs, cols=3, skip_r=True, size=100)\<close>. An argument with
  a default is \<open>None\<close> when the caller omits it. With \<open>skip_r\<close> set, \<^verbatim>\<open>list(filter(...))\<close>
  makes a new list object and the local name \<^verbatim>\<open>named_cms\<close> is bound to it.
\<close>

definition colormaps ::
  "hv_check \<Rightarrow> ref \<Rightarrow> ref option \<Rightarrow> int option \<Rightarrow> bool option \<Rightarrow> int option \<Rightarrow> (layout, 'cm) py" where
  "colormaps chk named_cms array cols skip_r size_arg w =
     (let array' = (case array of None \<Rightarrow> default_array w | Some a \<Rightarrow> a);
          cols' = (case cols of None \<Rightarrow> 3 | Some c \<Rightarrow> c);
          skip_r' = (case skip_r of None \<Rightarrow> True | Some b \<Rightarrow> b);
          size' = (case size_arg of None \<Rightarrow> 100 | Some s \<Rightarrow> s);
          (named_cms', w1) =
             (if skip_r' then new_list (skip_r_filter (lists w named_cms)) w
              else (named_cms, w));
          options = hv_opts_Layout None size'
      in case comprehension chk (lists w1 named_cms') array' w1 of
           (Inl e, w2) \<Rightarrow> (Inl e, w2)
         | (Inr imgs, w2) \<Rightarrow>
             (let (lay, w3) = opts_layout (hv_Layout imgs) options w2
              in (Inr (cols_layout lay cols'), w3)))"

subsection \<open>What a display object shows\<close>

text \<open>
  The options that the library's store holds for an object, the colormap that they give
  an image, and an image and a layout with the identifiers replaced by the options that
  they stand for.
\<close>

definition registered :: "'cm world \<Rightarrow> nat option \<Rightarrow> 'cm options option" where
  "registered w ido = (case ido of None \<Rightarrow> None | Some i \<Rightarrow> store w i)"

definition image_cmap :: "'cm world \<Rightarrow> image \<Rightarrow> 'cm option" where
  "image_cmap w img =
     (case registered w (image_id img) of
        Some (ImageOptions options) \<Rightarrow> Some (cmap_of options)
      | _ \<Rightarrow> None)"

definition image_view :: "'cm world \<Rightarrow> image \<Rightarrow> ref \<times> string \<times> 'cm options option" where
  "image_view w img = (image_data img, image_group img, registered w (image_id img))"




subsection \<open>The rows of a layout\<close>

text \<open>
  Modelled from the spec: the arrangement of a layout's items into the rows of the grid,
  which the plotting library computes from the column count set by \<^verbatim>\<open>.cols\<close> and which
  no code of the notebook does. The spec: the grid renderer "arranges results into a
  grid with no sub-labels, wrapping at the given column count". A row is filled from left
  to right with the next items, and a new row starts when the column count is reached.
  A layout without a positive column count has no arrangement here.
\<close>

function wrap_rows :: "nat \<Rightarrow> 'a list \<Rightarrow> 'a list list" where
  "wrap_rows c items =
     (if c = 0 \<or> items = [] then [] else take c items # wrap_rows c (drop c items))"
  by pat_completeness auto
termination
  by (relation "measure (\<lambda>(c, items). length items)") auto

declare wrap_rows.simps [simp del]

definition grid_rows :: "layout \<Rightarrow> image list list option" where
  "grid_rows lay =
     (case max_cols lay of
        None \<Rightarrow> None
      | Some c \<Rightarrow> if 0 < c then Some (wrap_rows (nat c) (layout_items lay)) else None)"

subsection \<open>How a world grows\<close>

text \<open>
  The later world holds everything that the earlier one held, except for the sequences:
  the same registry, arrays and default array, and the same options under the
  identifiers that were in use.
\<close>

definition grows :: "'cm world \<Rightarrow> 'cm world \<Rightarrow> bool" where
  "grows w w' \<longleftrightarrow>
     cc_cm w' = cc_cm w \<and> arrays w' = arrays w \<and> next_array w' = next_array w \<and>
     default_array w' = default_array w \<and> lists w' = lists w \<and> next_list w' = next_list w \<and>
     next_id w \<le> next_id w' \<and> (\<forall>i. i < next_id w \<longrightarrow> store w' i = store w i)"

subsection \<open>A small notebook state\<close>

text \<open>
  A registry of three colormaps, named by their long names; one sequence object holding
  its items; two arrays, the default one of two rows and one of a single row; nothing in
  the library's store. The validation refuses the group names that the library reserves
  and an array of a single row.
\<close>

definition demo_items :: "string named_cm list" where
  "demo_items =
     [(''fire'', Some ''linear_kryw_0_100_c71''),
      (''fire_r'', Some ''linear_kryw_0_100_c71_r''),
      (''rainbow'', Some ''rainbow_bgyr_35_85_c72'')]"

definition demo_world :: "string world" where
  "demo_world =
     \<lparr>cc_cm = [''fire'' \<mapsto> ''linear_kryw_0_100_c71'',
               ''fire_r'' \<mapsto> ''linear_kryw_0_100_c71_r'',
               ''rainbow'' \<mapsto> ''rainbow_bgyr_35_85_c72''],
      arrays = (\<lambda>_. [])(0 := [[0, 1], [0, 1]], 1 := [[0, 1 / 2, 1]]), next_array = 2,
      lists = (\<lambda>_. [])(0 := demo_items), next_list = 1,
      default_array = 0,
      store = Map.empty, next_id = 0\<rparr>"

definition demo_check :: hv_check where
  "demo_check a grp =
     (if grp \<in> set [''trait_names'', ''_ipython_display_'', ''_getAttributeNames'', ''_repr_png_'']
      then Some ''refused group''
      else if length a = 1 then Some ''single row''
      else None)"


section \<open>Lemmas on the single-swatch renderer\<close>

lemma grows_refl: "grows w w"
  by (simp add: grows_def)

lemma grows_trans: "grows w w1 \<Longrightarrow> grows w1 w2 \<Longrightarrow> grows w w2"
  by (auto simp: grows_def)

lemma colormap_unfold:
  "colormap chk name cmap array w =
     (case (case cmap of None \<Rightarrow> cc_cm w name | Some c \<Rightarrow> Some c) of
        None \<Rightarrow> (Inl (KeyError name), w)
      | Some c \<Rightarrow>
          (case chk (arrays w (case array of None \<Rightarrow> default_array w | Some a \<Rightarrow> a)) name of
             Some msg \<Rightarrow> (Inl (HvError msg), w)
           | None \<Rightarrow>
               (Inr \<lparr>image_data = (case array of None \<Rightarrow> default_array w | Some a \<Rightarrow> a),
                     image_group = name, image_id = Some (next_id w)\<rparr>,
                w\<lparr>store := (store w)(next_id w \<mapsto> ImageOptions (hv_opts_Image None None 3 200 c)),
                  next_id := Suc (next_id w)\<rparr>)))"
  by (simp add: colormap_def cc_cm_getitem_def hv_Image_def opts_image_def Let_def
      split: option.split)

lemma colormap_grows: "grows w (snd (colormap chk name cmap array w))"
  by (simp add: colormap_unfold grows_def split: option.split)

lemma colormap_Inr:
  assumes "colormap chk name cmap array w = (Inr img, w')"
  shows "image_data img = (case array of None \<Rightarrow> default_array w | Some a \<Rightarrow> a)"
    and "image_group img = name"
    and "image_id img = Some (next_id w)"
    and "next_id w' = Suc (next_id w)"
    and "\<exists>c. (case cmap of None \<Rightarrow> cc_cm w name | Some c \<Rightarrow> Some c) = Some c \<and>
             store w' (next_id w) = Some (ImageOptions (hv_opts_Image None None 3 200 c))"
    and "chk (arrays w (case array of None \<Rightarrow> default_array w | Some a \<Rightarrow> a)) name = None"
  using assms by (auto simp: colormap_unfold split: option.splits)

lemma colormap_Inl:
  "colormap chk name cmap array w = (Inl e, w') \<Longrightarrow> w' = w"
  by (auto simp: colormap_unfold split: option.splits)

lemma registered_grows:
  "grows w w' \<Longrightarrow> i < next_id w \<Longrightarrow> registered w' (Some i) = registered w (Some i)"
  by (simp add: grows_def registered_def)

lemma image_cmap_grows:
  "grows w w' \<Longrightarrow> image_id img = Some i \<Longrightarrow> i < next_id w \<Longrightarrow>
     image_cmap w' img = image_cmap w img"
  by (simp add: image_cmap_def registered_grows)


lemma colormap_Inr_cmap:
  assumes "colormap chk name cmap array w = (Inr img, w')"
  shows "image_cmap w' img = (case cmap of None \<Rightarrow> cc_cm w name | Some c \<Rightarrow> Some c)"
  using colormap_Inr(3,5) [OF assms]
  by (auto simp: image_cmap_def registered_def hv_opts_Image_def)

section \<open>Lemmas on the grid-layout renderer\<close>

lemma endswith_suffix: "endswith s t \<longleftrightarrow> suffix t s"
proof
  assume "endswith s t"
  then have "s = take (length s - length t) s @ t"
    by (metis append_take_drop_id endswith_def)
  then show "suffix t s" by (metis suffixI)
next
  assume "suffix t s"
  then obtain u where "s = u @ t" by (auto simp: suffix_def)
  then show "endswith s t" by (simp add: endswith_def)
qed

lemma skip_r_filter_suffix:
  "skip_r_filter l = filter (\<lambda>x. \<not> suffix ''_r'' (fst x)) l"
  by (simp add: skip_r_filter_def endswith_suffix)

lemma count_list_filter:
  "count_list (filter P l) p = (if P p then count_list l p else 0)"
  by (induction l) auto

lemma comprehension_Cons_Inr:
  assumes "comprehension chk ((name, cm) # rest) a w = (Inr imgs, w')"
  obtains img w1 more where "colormap chk name cm (Some a) w = (Inr img, w1)"
    and "comprehension chk rest a w1 = (Inr more, w')" and "imgs = img # more"
  using assms by (auto split: prod.splits sum.splits)

lemma comprehension_grows: "grows w (snd (comprehension chk l a w))"
proof (induction l arbitrary: w)
  case Nil
  show ?case by (simp add: grows_refl)
next
  case (Cons p l)
  obtain name cm where p: "p = (name, cm)" by (cases p)
  obtain r w1 where r: "colormap chk name cm (Some a) w = (r, w1)"
    by (cases "colormap chk name cm (Some a) w")
  with colormap_grows [of w chk name cm "Some a"] have g1: "grows w w1" by simp
  show ?case
  proof (cases r)
    case (Inl e)
    with r g1 show ?thesis by (simp add: p)
  next
    case (Inr img)
    obtain rs w2 where rs: "comprehension chk l a w1 = (rs, w2)"
      by (cases "comprehension chk l a w1")
    with Cons.IH [of w1] have "grows w1 w2" by simp
    with g1 have "grows w w2" by (rule grows_trans)
    with r Inr rs show ?thesis by (simp add: p split: sum.split)
  qed
qed

lemma comprehension_groups:
  "comprehension chk l a w = (Inr imgs, w') \<Longrightarrow> map image_group imgs = map fst l"
proof (induction l arbitrary: w imgs)
  case Nil
  then show ?case by simp
next
  case (Cons p l)
  obtain name cm where p: "p = (name, cm)" by (cases p)
  from Cons.prems [unfolded p] obtain img w1 more where
    h: "colormap chk name cm (Some a) w = (Inr img, w1)"
       "comprehension chk l a w1 = (Inr more, w')" "imgs = img # more"
    by (rule comprehension_Cons_Inr)
  from Cons.IH [OF h(2)] colormap_Inr(2) [OF h(1)] h(3)
  show ?case by (simp add: p)
qed

lemma comprehension_length:
  "comprehension chk l a w = (Inr imgs, w') \<Longrightarrow> length imgs = length l"
  using comprehension_groups [of chk l a w imgs w'] by (metis length_map)

lemma comprehension_ids:
  "comprehension chk l a w = (Inr imgs, w') \<Longrightarrow> img \<in> set imgs \<Longrightarrow>
     \<exists>i. image_id img = Some i \<and> i < next_id w'"
proof (induction l arbitrary: w imgs)
  case Nil
  then show ?case by simp
next
  case (Cons p l)
  obtain name cm where p: "p = (name, cm)" by (cases p)
  from Cons.prems(1) [unfolded p] obtain im w1 more where
    h: "colormap chk name cm (Some a) w = (Inr im, w1)"
       "comprehension chk l a w1 = (Inr more, w')" "imgs = im # more"
    by (rule comprehension_Cons_Inr)
  show ?case
  proof (cases "img = im")
    case True
    from comprehension_grows [of w1 chk l a] h(2) have "next_id w1 \<le> next_id w'"
      by (simp add: grows_def)
    with colormap_Inr(3,4) [OF h(1)] True show ?thesis by simp
  next
    case False
    with Cons.prems(2) h(3) have "img \<in> set more" by simp
    with Cons.IH [OF h(2)] show ?thesis by simp
  qed
qed

lemma comprehension_cmaps:
  "comprehension chk l a w = (Inr imgs, w') \<Longrightarrow>
     map (image_cmap w') imgs =
       map (\<lambda>(name, cm). case cm of None \<Rightarrow> cc_cm w name | Some c \<Rightarrow> Some c) l"
proof (induction l arbitrary: w imgs)
  case Nil
  then show ?case by simp
next
  case (Cons p l)
  obtain name cm where p: "p = (name, cm)" by (cases p)
  from Cons.prems [unfolded p] obtain img w1 more where
    h: "colormap chk name cm (Some a) w = (Inr img, w1)"
       "comprehension chk l a w1 = (Inr more, w')" "imgs = img # more"
    by (rule comprehension_Cons_Inr)
  from colormap_grows [of w chk name cm "Some a"] h(1) have "cc_cm w1 = cc_cm w"
    by (simp add: grows_def)
  with Cons.IH [OF h(2)] have rest: "map (image_cmap w') more =
      map (\<lambda>(name, cm). case cm of None \<Rightarrow> cc_cm w name | Some c \<Rightarrow> Some c) l"
    by simp
  from comprehension_grows [of w1 chk l a] h(2) have "grows w1 w'" by simp
  moreover from colormap_Inr(3,4) [OF h(1)] have "image_id img = Some (next_id w)"
    "next_id w < next_id w1" by simp_all
  ultimately have "image_cmap w' img = image_cmap w1 img"
    by (rule image_cmap_grows)
  with colormap_Inr_cmap [OF h(1)] rest h(3) show ?case
    by (simp add: p)
qed

lemma colormaps_unfold:
  "colormaps chk named_cms array cols skip_r size_arg w =
     (case comprehension chk
             (if skip_r = Some False then lists w named_cms
              else skip_r_filter (lists w named_cms))
             (case array of None \<Rightarrow> default_array w | Some a \<Rightarrow> a)
             (if skip_r = Some False then w
              else snd (new_list (skip_r_filter (lists w named_cms)) w)) of
        (Inl e, w2) \<Rightarrow> (Inl e, w2)
      | (Inr imgs, w2) \<Rightarrow>
          (Inr \<lparr>layout_items = imgs,
                max_cols = Some (case cols of None \<Rightarrow> 3 | Some c \<Rightarrow> c),
                layout_id = Some (next_id w2)\<rparr>,
           w2\<lparr>store := (store w2)(next_id w2 \<mapsto>
                  LayoutOptions (hv_opts_Layout None (case size_arg of None \<Rightarrow> 100 | Some s \<Rightarrow> s))),
              next_id := Suc (next_id w2)\<rparr>))"
proof (cases "skip_r = Some False")
  case True
  then show ?thesis
    by (simp add: colormaps_def opts_layout_def hv_Layout_def cols_layout_def
        split: prod.split sum.split)
next
  case False
  then have sk: "(case skip_r of None \<Rightarrow> True | Some b \<Rightarrow> b) = True"
    by (cases skip_r) auto
  from False show ?thesis
    by (simp add: colormaps_def sk new_list_def opts_layout_def hv_Layout_def cols_layout_def
        split: prod.split sum.split)
qed

lemma new_list_reads:
  "cc_cm (snd (new_list l w)) = cc_cm w"
  "arrays (snd (new_list l w)) = arrays w"
  "next_array (snd (new_list l w)) = next_array w"
  "default_array (snd (new_list l w)) = default_array w"
  "store (snd (new_list l w)) = store w"
  "next_id (snd (new_list l w)) = next_id w"
  "next_list (snd (new_list l w)) = Suc (next_list w)"
  "lists (snd (new_list l w)) (next_list w) = l"
  "r < next_list w \<Longrightarrow> lists (snd (new_list l w)) r = lists w r"
  by (simp_all add: new_list_def)

lemma colormaps_after:
  fixes w :: "'cm world"
  assumes "colormaps chk named_cms array cols skip_r size_arg w = (res, w')"
  defines "w1 \<equiv> if skip_r = Some False then w
                 else snd (new_list (skip_r_filter (lists w named_cms)) w)"
  shows "cc_cm w' = cc_cm w1" and "arrays w' = arrays w1" and "next_array w' = next_array w1"
    and "default_array w' = default_array w1" and "lists w' = lists w1"
    and "next_list w' = next_list w1" and "next_id w1 \<le> next_id w'"
    and "\<And>i. i < next_id w1 \<Longrightarrow> store w' i = store w1 i"
proof -
  let ?l = "if skip_r = Some False then lists w named_cms else skip_r_filter (lists w named_cms)"
  let ?a = "case array of None \<Rightarrow> default_array w | Some a \<Rightarrow> a"
  obtain r w2 where c: "comprehension chk ?l ?a w1 = (r, w2)"
    by (cases "comprehension chk ?l ?a w1")
  with comprehension_grows [of w1 chk ?l ?a] have g: "grows w1 w2" by simp
  from assms(1) c have "w' = w2 \<or> (\<exists>opt. w' = w2\<lparr>store := (store w2)(next_id w2 \<mapsto> opt),
      next_id := Suc (next_id w2)\<rparr>)"
    unfolding colormaps_unfold w1_def [symmetric] by (auto split: sum.splits)
  with g have "grows w1 w'"
    by (auto simp: grows_def)
  then show "cc_cm w' = cc_cm w1" and "arrays w' = arrays w1" and "next_array w' = next_array w1"
    and "default_array w' = default_array w1" and "lists w' = lists w1"
    and "next_list w' = next_list w1" and "next_id w1 \<le> next_id w'"
    and "\<And>i. i < next_id w1 \<Longrightarrow> store w' i = store w1 i"
    by (simp_all add: grows_def)
qed

lemma colormaps_Inr:
  assumes "colormaps chk named_cms array cols skip_r size_arg w = (Inr lay, w')"
  shows "\<exists>imgs w2.
     comprehension chk
       (if skip_r = Some False then lists w named_cms else skip_r_filter (lists w named_cms))
       (case array of None \<Rightarrow> default_array w | Some a \<Rightarrow> a)
       (if skip_r = Some False then w
        else snd (new_list (skip_r_filter (lists w named_cms)) w)) = (Inr imgs, w2) \<and>
     layout_items lay = imgs \<and>
     max_cols lay = Some (case cols of None \<Rightarrow> 3 | Some c \<Rightarrow> c) \<and>
     layout_id lay = Some (next_id w2) \<and>
     store w' (next_id w2) =
       Some (LayoutOptions (hv_opts_Layout None (case size_arg of None \<Rightarrow> 100 | Some s \<Rightarrow> s))) \<and>
     (\<forall>i. i < next_id w2 \<longrightarrow> store w' i = store w2 i)"
  using assms unfolding colormaps_unfold
  by (auto split: prod.splits sum.splits)





lemma comprehension_succeeds:
  assumes "\<forall>p \<in> set l. (case snd p of None \<Rightarrow> cc_cm w (fst p) | Some c \<Rightarrow> Some c) \<noteq> None \<and>
             chk (arrays w a) (fst p) = None"
  shows "\<exists>imgs w'. comprehension chk l a w = (Inr imgs, w')"
  using assms
proof (induction l arbitrary: w)
  case Nil
  show ?case by simp
next
  case (Cons p l)
  obtain name cm where p: "p = (name, cm)" by (cases p)
  from Cons.prems have "(case snd p of None \<Rightarrow> cc_cm w (fst p) | Some c \<Rightarrow> Some c) \<noteq> None"
    and ok: "chk (arrays w a) (fst p) = None"
    by simp_all
  then have "(case cm of None \<Rightarrow> cc_cm w name | Some c \<Rightarrow> Some c) \<noteq> None"
    by (cases cm) (simp_all add: p)
  with ok obtain img w1 where c1: "colormap chk name cm (Some a) w = (Inr img, w1)"
    by (auto simp: colormap_unfold p)
  from colormap_grows [of w chk name cm "Some a"] c1 have "cc_cm w1 = cc_cm w" "arrays w1 = arrays w"
    by (simp_all add: grows_def)
  with Cons.prems have "\<forall>p \<in> set l.
      (case snd p of None \<Rightarrow> cc_cm w1 (fst p) | Some c \<Rightarrow> Some c) \<noteq> None \<and>
      chk (arrays w1 a) (fst p) = None"
    by (simp cong: option.case_cong)
  from Cons.IH [OF this] obtain imgs w2 where "comprehension chk l a w1 = (Inr imgs, w2)"
    by blast
  with c1 show ?case by (simp add: p)
qed

lemma colormaps_Inr_views:
  assumes "colormaps chk named_cms array cols skip_r size_arg w = (Inr lay, w')"
    and "comprehension chk
       (if skip_r = Some False then lists w named_cms else skip_r_filter (lists w named_cms))
       (case array of None \<Rightarrow> default_array w | Some a \<Rightarrow> a)
       (if skip_r = Some False then w
        else snd (new_list (skip_r_filter (lists w named_cms)) w)) = (Inr imgs, w2)"
  shows "layout_items lay = imgs"
    and "map (image_view w') imgs = map (image_view w2) imgs"
    and "map (image_cmap w') imgs = map (image_cmap w2) imgs"
proof -
  from colormaps_Inr [OF assms(1)] assms(2)
  have items: "layout_items lay = imgs" and st: "\<forall>i. i < next_id w2 \<longrightarrow> store w' i = store w2 i"
    by auto
  show "layout_items lay = imgs" by (rule items)
  have same: "registered w' (image_id img) = registered w2 (image_id img)" if "img \<in> set imgs" for img
  proof -
    from comprehension_ids [OF assms(2) that] obtain i where "image_id img = Some i" "i < next_id w2"
      by blast
    with st show ?thesis by (simp add: registered_def)
  qed
  then show "map (image_view w') imgs = map (image_view w2) imgs"
    by (simp add: image_view_def)
  from same show "map (image_cmap w') imgs = map (image_cmap w2) imgs"
    by (simp add: image_cmap_def)
qed

lemma colormaps_Inr_cmaps:
  assumes "colormaps chk named_cms array cols skip_r size_arg w = (Inr lay, w')"
  shows "map (image_cmap w') (layout_items lay) =
     map (\<lambda>(name, cm). case cm of None \<Rightarrow> cc_cm w name | Some c \<Rightarrow> Some c)
       (if skip_r = Some False then lists w named_cms else skip_r_filter (lists w named_cms))"
proof -
  from colormaps_Inr [OF assms] obtain imgs w2 where
    c: "comprehension chk
       (if skip_r = Some False then lists w named_cms else skip_r_filter (lists w named_cms))
       (case array of None \<Rightarrow> default_array w | Some a \<Rightarrow> a)
       (if skip_r = Some False then w
        else snd (new_list (skip_r_filter (lists w named_cms)) w)) = (Inr imgs, w2)"
    by blast
  have "cc_cm (if skip_r = Some False then w
        else snd (new_list (skip_r_filter (lists w named_cms)) w)) = cc_cm w"
    by (simp add: new_list_reads)
  with comprehension_cmaps [OF c] colormaps_Inr_views [OF assms c]
  show ?thesis by simp
qed



lemma colormaps_frame:
  fixes w :: "'cm world"
  assumes "colormaps chk named_cms array cols skip_r size_arg w = (res, w')"
  shows "cc_cm w' = cc_cm w" and "arrays w' = arrays w" and "next_array w' = next_array w"
    and "default_array w' = default_array w"
    and "\<And>r. r < next_list w \<Longrightarrow> lists w' r = lists w r"
    and "\<And>i. i < next_id w \<Longrightarrow> store w' i = store w i"
    and "next_id w \<le> next_id w'"
    and "skip_r \<noteq> Some False \<Longrightarrow> lists w' (next_list w) = skip_r_filter (lists w named_cms)"
    and "skip_r = Some False \<Longrightarrow> lists w' = lists w \<and> next_list w' = next_list w"
  using colormaps_after [OF assms]
  by (simp_all add: new_list_reads split: if_splits)

subsection \<open>Wrapping into rows\<close>

lemma wrap_rows_concat: "0 < c \<Longrightarrow> concat (wrap_rows c items) = items"
proof (induction c items rule: wrap_rows.induct)
  case (1 c items)
  then show ?case
    by (subst wrap_rows.simps) auto
qed

lemma wrap_rows_row: "r \<in> set (wrap_rows c items) \<Longrightarrow> r \<noteq> [] \<and> length r \<le> c"
proof (induction c items rule: wrap_rows.induct)
  case (1 c items)
  from "1.prems" have ne: "\<not> (c = 0 \<or> items = [])" and
    "r = take c items \<or> r \<in> set (wrap_rows c (drop c items))"
    by (subst (asm) wrap_rows.simps, simp split: if_splits)+
  then show ?case
    using "1.IH" by auto
qed

lemma wrap_rows_length: "0 < c \<Longrightarrow> length (wrap_rows c items) = (length items + c - 1) div c"
proof (induction c items rule: wrap_rows.induct)
  case (1 c items)
  show ?case
  proof (cases "items = []")
    case True
    with "1.prems" show ?thesis by (subst wrap_rows.simps) simp
  next
    case False
    with "1.prems" have ne: "\<not> (c = 0 \<or> items = [])" by simp
    have "length (wrap_rows c items) = Suc (length (wrap_rows c (drop c items)))"
      using ne by (subst wrap_rows.simps) simp
    also have "\<dots> = Suc ((length items - c + c - 1) div c)"
      using "1.IH" [OF ne] "1.prems" by simp
    also have "\<dots> = (length items + c - 1) div c"
    proof (cases "c \<le> length items")
      case True
      with "1.prems" have e: "length items + c - 1 = (length items - 1) + c"
        "length items - c + c - 1 = length items - 1"
        by simp_all
      have "(length items - 1 + c) div c = Suc ((length items - 1) div c)"
        using "1.prems" by simp
      with e show ?thesis by simp
    next
      case False
      moreover from ne have "0 < length items" by simp
      ultimately have "length items - c + c - 1 < c" "c \<le> length items + c - 1"
        "length items + c - 1 < 2 * c" by linarith+
      then have "(length items - c + c - 1) div c = 0" "(length items + c - 1) div c = 1"
        by (simp_all only: div_less, intro div_nat_eqI, simp_all)
      then show ?thesis
        by (simp only:)
    qed
    finally show ?thesis .
  qed
qed

lemma ceiling_nat_div:
  assumes "0 < c"
  shows "\<lceil>real n / real c\<rceil> = int ((n + c - 1) div c)"
proof -
  let ?q = "(n + c - 1) div c"
  have lo: "?q * c \<le> n + c - 1" by simp
  have hi: "n + c - 1 < c + ?q * c"
    using assms by (rule dividend_less_div_times)
  from hi assms have "n \<le> ?q * c" by linarith
  then have "real n \<le> real (?q * c)" by (rule of_nat_mono)
  then have up: "real n / real c \<le> real ?q"
    using assms by (simp add: pos_divide_le_eq)
  from lo assms have "?q * c < n + c" by linarith
  then have "real (?q * c) < real (n + c)" by (simp only: of_nat_less_iff)
  then have "(real ?q - 1) * real c < real n" by (simp add: algebra_simps)
  then have down: "real ?q - 1 < real n / real c"
    using assms by (simp add: pos_less_divide_eq)
  from up down show ?thesis
    by (intro ceiling_unique) simp_all
qed

section \<open>The notebook state of the examples\<close>

lemma demo_world_reads:
  "cc_cm demo_world ''fire'' = Some ''linear_kryw_0_100_c71''"
  "cc_cm demo_world ''rainbow'' = Some ''rainbow_bgyr_35_85_c72''"
  "cc_cm demo_world ''magma'' = None"
  "lists demo_world 0 = demo_items" "next_list demo_world = 1"
  "default_array demo_world = 0"
  "arrays demo_world 0 = [[0, 1], [0, 1]]" "arrays demo_world (Suc 0) = [[0, 1 / 2, 1]]"
  "store demo_world = Map.empty" "next_id demo_world = 0"
  by (simp_all add: demo_world_def)

lemma demo_check_accepts:
  "demo_check [[0, 1], [0, 1]] ''fire'' = None"
  "demo_check [[0, 1], [0, 1]] ''fire_r'' = None"
  "demo_check [[0, 1], [0, 1]] ''rainbow'' = None"
  "demo_check [[0, 1 / 2, 1]] ''fire'' = Some ''single row''"
  by (simp_all add: demo_check_def)

lemma demo_kept:
  "skip_r_filter demo_items =
     [(''fire'', Some ''linear_kryw_0_100_c71''), (''rainbow'', Some ''rainbow_bgyr_35_85_c72'')]"
  by (simp add: demo_items_def skip_r_filter_def endswith_def)




section \<open>The single-swatch renderer\<close>

text \<open>
  C4. The swatch renderer applies the colormap it is given; when it is given none
  (\<open>cmap\<close> is \<open>None\<close>) it applies the colormap that the registry \<^verbatim>\<open>cc.cm\<close> holds under
  the name, and the call is then the call with that colormap given. Whenever it returns
  an image, the options registered for the image carry that colormap and the image
  carries the name; it returns one whenever the plotting library accepts the array and
  the name.
\<close>

theorem colormap_uses_cmap_or_registry:
  assumes "cmap = Some c \<or> (cmap = None \<and> cc_cm w name = Some c)"
  shows "colormap chk name cmap array w = colormap chk name (Some c) array w \<and>
         (\<forall>img w'. colormap chk name cmap array w = (Inr img, w') \<longrightarrow>
            image_group img = name \<and> image_cmap w' img = Some c) \<and>
         (chk (arrays w (case array of None \<Rightarrow> default_array w | Some a \<Rightarrow> a)) name = None \<longrightarrow>
            (\<exists>img w'. colormap chk name cmap array w = (Inr img, w')))"
proof -
  from assms have r: "(case cmap of None \<Rightarrow> cc_cm w name | Some c \<Rightarrow> Some c) = Some c"
    by auto
  then have "colormap chk name cmap array w = colormap chk name (Some c) array w"
    by (simp add: colormap_unfold)
  moreover have "image_group img = name \<and> image_cmap w' img = Some c"
    if "colormap chk name cmap array w = (Inr img, w')" for img w'
    using colormap_Inr(2) [OF that] colormap_Inr_cmap [OF that] r by simp
  moreover have "\<exists>img w'. colormap chk name cmap array w = (Inr img, w')"
    if "chk (arrays w (case array of None \<Rightarrow> default_array w | Some a \<Rightarrow> a)) name = None"
    using that r by (simp add: colormap_unfold)
  ultimately show ?thesis by blast
qed

theorem colormap_uses_cmap_or_registry_witness:
  "colormap demo_check ''fire'' None None demo_world =
     colormap demo_check ''fire'' (Some ''linear_kryw_0_100_c71'') None demo_world \<and>
   (\<exists>img w'. colormap demo_check ''fire'' None None demo_world = (Inr img, w') \<and>
      image_group img = ''fire'' \<and> image_cmap w' img = Some ''linear_kryw_0_100_c71'') \<and>
   (\<exists>img w'. colormap demo_check ''fire'' (Some ''viridis'') None demo_world = (Inr img, w') \<and>
      image_group img = ''fire'' \<and> image_cmap w' img = Some ''viridis'')"
proof -
  have ok: "demo_check (arrays demo_world (case None of None \<Rightarrow> default_array demo_world | Some a \<Rightarrow> a))
      ''fire'' = None"
    by (simp add: demo_world_reads demo_check_accepts)
  have reg: "None = Some ''linear_kryw_0_100_c71'' \<or>
      (None = (None :: string option) \<and> cc_cm demo_world ''fire'' = Some ''linear_kryw_0_100_c71'')"
    by (simp add: demo_world_reads)
  have giv: "Some ''viridis'' = Some ''viridis'' \<or>
      (Some ''viridis'' = None \<and> cc_cm demo_world ''fire'' = Some ''viridis'')"
    by simp
  note a = colormap_uses_cmap_or_registry [OF reg, of demo_check None]
  note b = colormap_uses_cmap_or_registry [OF giv, of demo_check None]
  from a have a1: "colormap demo_check ''fire'' None None demo_world =
     colormap demo_check ''fire'' (Some ''linear_kryw_0_100_c71'') None demo_world"
    by (rule conjunct1)
  from a ok obtain img w' where i: "colormap demo_check ''fire'' None None demo_world = (Inr img, w')"
    by blast
  with a have a2: "image_group img = ''fire'' \<and> image_cmap w' img = Some ''linear_kryw_0_100_c71''"
    by blast
  from b ok obtain img2 w2 where
    j: "colormap demo_check ''fire'' (Some ''viridis'') None demo_world = (Inr img2, w2)"
    by blast
  with b have b2: "image_group img2 = ''fire'' \<and> image_cmap w2 img2 = Some ''viridis''"
    by blast
  from a1 i a2 j b2 show ?thesis by blast
qed

text \<open>
  C5. With a name that the registry does not hold and no colormap given, the lookup
  \<^verbatim>\<open>cc.cm[name]\<close> raises, and the swatch renderer ends with that same exception, in
  the same world: it produces no image and catches nothing.
\<close>

theorem colormap_lookup_failure_propagates:
  "cc_cm w name = None \<Longrightarrow>
     cc_cm_getitem name w = (Inl (KeyError name), w) \<and>
     colormap chk name None array w = (Inl (KeyError name), w) \<and>
     (\<forall>img w'. colormap chk name None array w \<noteq> (Inr img, w'))"
  by (simp add: colormap_def cc_cm_getitem_def)

theorem colormap_lookup_failure_propagates_witness:
  "cc_cm demo_world ''magma'' = None \<and>
   cc_cm_getitem ''magma'' demo_world = (Inl (KeyError ''magma''), demo_world) \<and>
   colormap demo_check ''magma'' None None demo_world = (Inl (KeyError ''magma''), demo_world) \<and>
   (\<forall>img w'. colormap demo_check ''magma'' None None demo_world \<noteq> (Inr img, w'))"
proof -
  have absent: "cc_cm demo_world ''magma'' = None"
    by (simp add: demo_world_reads)
  from colormap_lookup_failure_propagates [OF absent, of demo_check None] absent
  show ?thesis by simp
qed




section \<open>The grid-layout renderer\<close>

text \<open>
  C1. With the skip flag set, the sequence that the grid renderer goes on to render (the
  new list that it binds to \<^verbatim>\<open>named_cms\<close>) is the given sequence without the
  entries whose name ends in \<^verbatim>\<open>_r\<close>: it is a subsequence of the given one, so the
  order is kept; an entry whose name ends in \<^verbatim>\<open>_r\<close> does not occur in it and every other
  entry occurs as often as in the given sequence. The images of the layout are those of
  its entries, in order.
\<close>

theorem skip_reversed_filter_exact:
  assumes "colormaps chk named_cms array cols (Some True) size_arg w = (res, w')"
  shows "lists w' (next_list w) =
           filter (\<lambda>p. \<not> suffix ''_r'' (fst p)) (lists w named_cms) \<and>
         subseq (lists w' (next_list w)) (lists w named_cms) \<and>
         (\<forall>p. count_list (lists w' (next_list w)) p =
                (if suffix ''_r'' (fst p) then 0 else count_list (lists w named_cms) p)) \<and>
         (\<forall>lay. res = Inr lay \<longrightarrow>
                map image_group (layout_items lay) = map fst (lists w' (next_list w)))"
proof -
  let ?kept = "skip_r_filter (lists w named_cms)"
  have kept: "lists w' (next_list w) = ?kept"
    using colormaps_frame(8) [OF assms] by simp
  have "?kept = filter (\<lambda>p. \<not> suffix ''_r'' (fst p)) (lists w named_cms)"
    by (rule skip_r_filter_suffix)
  moreover have "subseq ?kept (lists w named_cms)"
    by (simp add: skip_r_filter_suffix)
  moreover have "count_list ?kept p =
      (if suffix ''_r'' (fst p) then 0 else count_list (lists w named_cms) p)" for p
    by (simp add: skip_r_filter_suffix count_list_filter)
  moreover have "map image_group (layout_items lay) = map fst ?kept" if "res = Inr lay" for lay
  proof -
    from assms that have "colormaps chk named_cms array cols (Some True) size_arg w = (Inr lay, w')"
      by simp
    from colormaps_Inr [OF this] obtain imgs w2 where
      "comprehension chk ?kept (case array of None \<Rightarrow> default_array w | Some r \<Rightarrow> r)
         (snd (new_list ?kept w)) = (Inr imgs, w2)" and "layout_items lay = imgs"
      by auto
    then show ?thesis
      using comprehension_groups by metis
  qed
  ultimately show ?thesis
    unfolding kept by blast
qed

theorem skip_reversed_filter_exact_witness:
  "subseq (lists (snd (colormaps demo_check 0 None None (Some True) None demo_world)) 1) demo_items \<and>
   lists (snd (colormaps demo_check 0 None None (Some True) None demo_world)) 1 =
     [(''fire'', Some ''linear_kryw_0_100_c71''), (''rainbow'', Some ''rainbow_bgyr_35_85_c72'')] \<and>
   (\<exists>lay. fst (colormaps demo_check 0 None None (Some True) None demo_world) = Inr lay \<and>
      map image_group (layout_items lay) = [''fire'', ''rainbow''])"
proof -
  let ?call = "colormaps demo_check 0 None None (Some True) None demo_world"
  have call: "?call = (fst ?call, snd ?call)" by simp
  note t = skip_reversed_filter_exact [OF call, unfolded demo_world_reads]
  have kept: "filter (\<lambda>p. \<not> suffix ''_r'' (fst p)) demo_items =
     [(''fire'', Some ''linear_kryw_0_100_c71''), (''rainbow'', Some ''rainbow_bgyr_35_85_c72'')]"
    using demo_kept by (simp add: skip_r_filter_suffix)
  from t kept have l: "lists (snd ?call) 1 =
     [(''fire'', Some ''linear_kryw_0_100_c71''), (''rainbow'', Some ''rainbow_bgyr_35_85_c72'')]"
    by simp
  from t have s: "subseq (lists (snd ?call) 1) demo_items" by blast
  from t have g: "\<forall>lay. fst ?call = Inr lay \<longrightarrow>
      map image_group (layout_items lay) = map fst (lists (snd ?call) 1)" by blast
  have "\<forall>p \<in> set (skip_r_filter demo_items).
      (case snd p of None \<Rightarrow> cc_cm (snd (new_list (skip_r_filter demo_items) demo_world)) (fst p)
       | Some c \<Rightarrow> Some c) \<noteq> None \<and>
      demo_check (arrays (snd (new_list (skip_r_filter demo_items) demo_world)) 0) (fst p) = None"
    by (simp add: demo_kept new_list_reads demo_world_reads demo_check_accepts)
  from comprehension_succeeds [where chk = demo_check and l = "skip_r_filter demo_items"
      and a = 0 and w = "snd (new_list (skip_r_filter demo_items) demo_world)", OF this]
  obtain lay where lay: "fst ?call = Inr lay"
    by (auto simp: colormaps_unfold demo_world_reads)
  with g l have "map image_group (layout_items lay) = [''fire'', ''rainbow'']"
    by simp
  with lay have "\<exists>lay. fst ?call = Inr lay \<and>
      map image_group (layout_items lay) = [''fire'', ''rainbow'']"
    by (intro exI [of _ lay]) simp
  with l s show ?thesis by simp
qed

text \<open>
  C2. For the sequence \<open>[(fire, cmap_a), (fire_r, cmap_b), (rainbow, cmap_c)]\<close> and the
  skip flag set, the sequence that the grid renderer renders is
  \<open>[(fire, cmap_a), (rainbow, cmap_c)]\<close>, whatever the call returns. A layout that it
  returns holds the images of these names with these colormaps, in this order, and it
  returns one whenever the plotting library accepts the array with the two names.
\<close>

theorem skip_reversed_example:
  assumes "lists w named_cms =
     [(''fire'', Some cmap_a), (''fire_r'', Some cmap_b), (''rainbow'', Some cmap_c)]"
    and "colormaps chk named_cms array cols (Some True) size_arg w = (res, w')"
  shows "lists w' (next_list w) = [(''fire'', Some cmap_a), (''rainbow'', Some cmap_c)] \<and>
         (\<forall>lay. res = Inr lay \<longrightarrow>
            map (\<lambda>img. (image_group img, image_cmap w' img)) (layout_items lay) =
              [(''fire'', Some cmap_a), (''rainbow'', Some cmap_c)]) \<and>
         (chk (arrays w (case array of None \<Rightarrow> default_array w | Some a \<Rightarrow> a)) ''fire'' = None \<and>
          chk (arrays w (case array of None \<Rightarrow> default_array w | Some a \<Rightarrow> a)) ''rainbow'' = None \<longrightarrow>
            (\<exists>lay. res = Inr lay))"
proof -
  let ?kept = "[(''fire'', Some cmap_a), (''rainbow'', Some cmap_c)]"
  let ?a = "case array of None \<Rightarrow> default_array w | Some a \<Rightarrow> a"
  let ?w1 = "snd (new_list (skip_r_filter (lists w named_cms)) w)"
  have kept: "skip_r_filter (lists w named_cms) = ?kept"
    by (simp add: assms(1) skip_r_filter_def endswith_def)
  have l: "lists w' (next_list w) = ?kept"
    using colormaps_frame(8) [OF assms(2)] kept by simp
  have shown: "map (\<lambda>img. (image_group img, image_cmap w' img)) (layout_items lay) = ?kept"
    if "res = Inr lay" for lay
  proof -
    from assms(2) that have r: "colormaps chk named_cms array cols (Some True) size_arg w = (Inr lay, w')"
      by simp
    from colormaps_Inr_cmaps [OF r] kept
    have c: "map (image_cmap w') (layout_items lay) = [Some cmap_a, Some cmap_c]"
      by simp
    from colormaps_Inr [OF r] obtain imgs w2 where
      "comprehension chk (skip_r_filter (lists w named_cms)) ?a ?w1 = (Inr imgs, w2)"
      and "layout_items lay = imgs"
      by auto
    with comprehension_groups [of chk "skip_r_filter (lists w named_cms)" ?a ?w1 imgs w2] kept
    have g: "map image_group (layout_items lay) = [''fire'', ''rainbow'']"
      by simp
    from g c show ?thesis
      by (cases "layout_items lay" rule: list.exhaust; simp) (auto simp: map_eq_Cons_conv)
  qed
  have "\<exists>lay. res = Inr lay"
    if "chk (arrays w ?a) ''fire'' = None \<and> chk (arrays w ?a) ''rainbow'' = None"
  proof -
    from that have "\<forall>p \<in> set (skip_r_filter (lists w named_cms)).
        (case snd p of None \<Rightarrow> cc_cm ?w1 (fst p) | Some c \<Rightarrow> Some c) \<noteq> None \<and>
        chk (arrays ?w1 ?a) (fst p) = None"
      unfolding kept by (simp add: new_list_reads)
    from comprehension_succeeds [where chk = chk and l = "skip_r_filter (lists w named_cms)"
        and a = ?a and w = ?w1, OF this] assms(2) show ?thesis
      by (auto simp: colormaps_unfold)
  qed
  with l shown show ?thesis by blast
qed

theorem skip_reversed_example_witness:
  "lists demo_world 0 =
     [(''fire'', Some ''linear_kryw_0_100_c71''),
      (''fire_r'', Some ''linear_kryw_0_100_c71_r''),
      (''rainbow'', Some ''rainbow_bgyr_35_85_c72'')] \<and>
   lists (snd (colormaps demo_check 0 None None (Some True) None demo_world)) 1 =
     [(''fire'', Some ''linear_kryw_0_100_c71''),
      (''rainbow'', Some ''rainbow_bgyr_35_85_c72'')] \<and>
   (\<exists>lay. fst (colormaps demo_check 0 None None (Some True) None demo_world) = Inr lay \<and>
      map (\<lambda>img. (image_group img,
                  image_cmap (snd (colormaps demo_check 0 None None (Some True) None demo_world)) img))
        (layout_items lay) =
        [(''fire'', Some ''linear_kryw_0_100_c71''),
         (''rainbow'', Some ''rainbow_bgyr_35_85_c72'')])"
proof -
  let ?call = "colormaps demo_check 0 None None (Some True) None demo_world"
  have given: "lists demo_world 0 =
     [(''fire'', Some ''linear_kryw_0_100_c71''),
      (''fire_r'', Some ''linear_kryw_0_100_c71_r''),
      (''rainbow'', Some ''rainbow_bgyr_35_85_c72'')]"
    by (simp add: demo_world_reads demo_items_def)
  have call: "?call = (fst ?call, snd ?call)" by simp
  have ok: "demo_check (arrays demo_world (case None of None \<Rightarrow> default_array demo_world | Some a \<Rightarrow> a))
        ''fire'' = None \<and>
      demo_check (arrays demo_world (case None of None \<Rightarrow> default_array demo_world | Some a \<Rightarrow> a))
        ''rainbow'' = None"
    by (simp add: demo_world_reads demo_check_accepts)
  note t = skip_reversed_example [OF given call]
  from t have l: "lists (snd ?call) (next_list demo_world) =
     [(''fire'', Some ''linear_kryw_0_100_c71''), (''rainbow'', Some ''rainbow_bgyr_35_85_c72'')]"
    by (rule conjunct1)
  from t ok obtain lay where lay: "fst ?call = Inr lay" by blast
  with t have "map (\<lambda>img. (image_group img, image_cmap (snd ?call) img)) (layout_items lay) =
        [(''fire'', Some ''linear_kryw_0_100_c71''), (''rainbow'', Some ''rainbow_bgyr_35_85_c72'')]"
    by blast
  with lay have "\<exists>lay. fst ?call = Inr lay \<and>
      map (\<lambda>img. (image_group img, image_cmap (snd ?call) img)) (layout_items lay) =
        [(''fire'', Some ''linear_kryw_0_100_c71''), (''rainbow'', Some ''rainbow_bgyr_35_85_c72'')]"
    by (intro exI [of _ lay]) simp
  with given l show ?thesis by (simp add: demo_world_reads)
qed

text \<open>
  C3. When the grid renderer returns a layout for a column count \<open>cols > 0\<close>, the layout
  holds one image for each entry left after the filtering, and its rows, which are the
  items in order, none empty and none longer than \<open>cols\<close>, number \<open>ceil(N / cols)\<close>
  for its \<open>N\<close> items.
\<close>

theorem grid_rows_ceiling:
  assumes "0 < cols"
    and "colormaps chk named_cms array (Some cols) skip_r size_arg w = (Inr lay, w')"
  shows "\<exists>rows. grid_rows lay = Some rows \<and>
           concat rows = layout_items lay \<and>
           (\<forall>r \<in> set rows. r \<noteq> [] \<and> int (length r) \<le> cols) \<and>
           length (layout_items lay) =
             length (if skip_r = Some False then lists w named_cms
                     else skip_r_filter (lists w named_cms)) \<and>
           int (length rows) = \<lceil>real (length (layout_items lay)) / real_of_int cols\<rceil>"
proof -
  from colormaps_Inr [OF assms(2)] obtain imgs w2 where
    imgs: "comprehension chk
       (if skip_r = Some False then lists w named_cms else skip_r_filter (lists w named_cms))
       (case array of None \<Rightarrow> default_array w | Some r \<Rightarrow> r)
       (if skip_r = Some False then w
        else snd (new_list (skip_r_filter (lists w named_cms)) w)) = (Inr imgs, w2)"
    and items: "layout_items lay = imgs" and mc: "max_cols lay = Some cols"
    by auto
  let ?rows = "wrap_rows (nat cols) imgs"
  from assms(1) have c: "0 < nat cols" "real_of_int cols = real (nat cols)" by simp_all
  have "grid_rows lay = Some ?rows"
    using assms(1) by (simp add: grid_rows_def mc items)
  moreover have "concat ?rows = layout_items lay"
    using c(1) by (simp add: wrap_rows_concat items)
  moreover have "\<forall>r \<in> set ?rows. r \<noteq> [] \<and> int (length r) \<le> cols"
  proof
    fix r assume "r \<in> set ?rows"
    then have "r \<noteq> [] \<and> length r \<le> nat cols" by (rule wrap_rows_row)
    with assms(1) show "r \<noteq> [] \<and> int (length r) \<le> cols" by linarith
  qed
  moreover have "length (layout_items lay) =
      length (if skip_r = Some False then lists w named_cms
              else skip_r_filter (lists w named_cms))"
    using comprehension_length [OF imgs] by (simp add: items)
  moreover have "int (length ?rows) = \<lceil>real (length (layout_items lay)) / real_of_int cols\<rceil>"
    using c(1) by (simp only: c(2) ceiling_nat_div wrap_rows_length items)
  ultimately show ?thesis by blast
qed

theorem grid_rows_ceiling_witness:
  "(0::int) < 2 \<and>
   (\<exists>lay w' rows. colormaps demo_check 0 None (Some 2) (Some False) None demo_world = (Inr lay, w') \<and>
      length (layout_items lay) = 3 \<and> grid_rows lay = Some rows \<and> length rows = 2)"
proof -
  have "\<forall>p \<in> set demo_items.
      (case snd p of None \<Rightarrow> cc_cm demo_world (fst p) | Some c \<Rightarrow> Some c) \<noteq> None \<and>
      demo_check (arrays demo_world 0) (fst p) = None"
    by (simp add: demo_items_def demo_world_reads demo_check_accepts)
  from comprehension_succeeds [where chk = demo_check and l = demo_items and a = 0
      and w = demo_world, OF this]
  obtain lay w' where call:
    "colormaps demo_check 0 None (Some 2) (Some False) None demo_world = (Inr lay, w')"
    by (auto simp: colormaps_unfold demo_world_reads)
  have pos: "(0::int) < 2" by simp
  from grid_rows_ceiling [OF pos call] obtain rows where
    rows: "grid_rows lay = Some rows" and
    n: "length (layout_items lay) = length (lists demo_world 0)" and
    c: "int (length rows) = \<lceil>real (length (layout_items lay)) / real_of_int 2\<rceil>"
    by auto
  from n have n3: "length (layout_items lay) = 3"
    by (simp add: demo_world_reads demo_items_def)
  have "\<lceil>real 3 / real_of_int 2\<rceil> = (2::int)"
    by (simp add: ceiling_eq_iff)
  with c n3 have "length rows = 2" by simp
  with call rows n3 show ?thesis by auto
qed

text \<open>
  C10. A call of the grid renderer that gives neither \<open>cols\<close> nor \<open>skip_r\<close> is the call
  with three columns and the skip flag set: the layout it returns has the column count 3
  and holds the images of exactly the entries whose name, the first component of the
  pair, does not end in the two characters \<^verbatim>\<open>_r\<close>.
\<close>

theorem colormaps_defaults:
  "colormaps chk named_cms array None None size_arg w =
     colormaps chk named_cms array (Some 3) (Some True) size_arg w \<and>
   (\<forall>lay w'. colormaps chk named_cms array None None size_arg w = (Inr lay, w') \<longrightarrow>
      max_cols lay = Some 3 \<and>
      map image_group (layout_items lay) =
        filter (\<lambda>name. \<not> suffix ''_r'' name) (map fst (lists w named_cms)))"
proof -
  have "colormaps chk named_cms array None None size_arg w =
     colormaps chk named_cms array (Some 3) (Some True) size_arg w"
    by (simp add: colormaps_def)
  moreover have "max_cols lay = Some 3 \<and>
      map image_group (layout_items lay) =
        filter (\<lambda>name. \<not> suffix ''_r'' name) (map fst (lists w named_cms))"
    if "colormaps chk named_cms array None None size_arg w = (Inr lay, w')" for lay w'
  proof -
    from colormaps_Inr [OF that] obtain imgs w2 where
      imgs: "comprehension chk (skip_r_filter (lists w named_cms))
         (case array of None \<Rightarrow> default_array w | Some r \<Rightarrow> r)
         (snd (new_list (skip_r_filter (lists w named_cms)) w)) = (Inr imgs, w2)"
      and items: "layout_items lay = imgs" and mc: "max_cols lay = Some 3"
      by auto
    from comprehension_groups [OF imgs] items mc show ?thesis
      by (simp add: skip_r_filter_suffix filter_map comp_def)
  qed
  ultimately show ?thesis by blast
qed

theorem colormaps_defaults_witness:
  "\<exists>lay w'. colormaps demo_check 0 None None None None demo_world = (Inr lay, w') \<and>
      max_cols lay = Some 3 \<and>
      map image_group (layout_items lay) = [''fire'', ''rainbow'']"
proof -
  have "\<forall>p \<in> set (skip_r_filter demo_items).
      (case snd p of None \<Rightarrow> cc_cm (snd (new_list (skip_r_filter demo_items) demo_world)) (fst p)
       | Some c \<Rightarrow> Some c) \<noteq> None \<and>
      demo_check (arrays (snd (new_list (skip_r_filter demo_items) demo_world)) 0) (fst p) = None"
    by (simp add: demo_kept new_list_reads demo_world_reads demo_check_accepts)
  from comprehension_succeeds [where chk = demo_check and l = "skip_r_filter demo_items"
      and a = 0 and w = "snd (new_list (skip_r_filter demo_items) demo_world)", OF this]
  obtain lay w' where call: "colormaps demo_check 0 None None None None demo_world = (Inr lay, w')"
    by (auto simp: colormaps_unfold demo_world_reads)
  have names: "filter (\<lambda>name. \<not> suffix ''_r'' name) (map fst (lists demo_world 0)) =
      [''fire'', ''rainbow'']"
    by (simp add: demo_world_reads demo_items_def endswith_suffix [symmetric] endswith_def)
  from colormaps_defaults [of demo_check 0 None None demo_world]
  have "\<forall>lay w'. colormaps demo_check 0 None None None None demo_world = (Inr lay, w') \<longrightarrow>
      max_cols lay = Some 3 \<and>
      map image_group (layout_items lay) =
        filter (\<lambda>name. \<not> suffix ''_r'' name) (map fst (lists demo_world 0))"
    by (rule conjunct2)
  with call have "max_cols lay = Some 3 \<and>
      map image_group (layout_items lay) =
        filter (\<lambda>name. \<not> suffix ''_r'' name) (map fst (lists demo_world 0))"
    by blast
  then have r: "max_cols lay = Some 3 \<and>
      map image_group (layout_items lay) = [''fire'', ''rainbow'']"
    by (simp only: names)
  show ?thesis
    by (rule exI [of _ lay], rule exI [of _ w']) (simp add: call r)
qed

section \<open>Determinism and frame\<close>







end
